theory Spec2Isabelle
  imports Main "HOL-Library.Word" "HOL-Library.AList"
begin

section \<open>The docker-layer cache of goproxy-cache (main.go)\<close>

text \<open>
  The program is an intercepting proxy with two hooks, \<open>CacheReqHandler\<close> (run before a
  request goes upstream) and \<open>CacheRespHandler\<close> (run on the response), a reader
  \<open>cacheTeeReader\<close> that copies what it reads to a file, and \<open>cacheInit\<close>, which
  builds the index from the cache directory when the process starts.

  The embedding is sequential and passes the state explicitly. The state (\<open>world\<close>) holds
  the package-level variables \<open>re\<close>, \<open>cachedir\<close> and \<open>cache\<close> together with the part
  of the operating system the program talks to: a file system, a table of injected faults
  and the free space of the disk. Calls to the log (\<open>ctx.Logf\<close>, \<open>ctx.Warnf\<close>,
  \<open>fmt.Printf\<close>) have no effect on any of this and are left out. The mutex \<open>m\<close>
  delimits atomic sections; the only place where the code gives way to other goroutines
  on purpose, the sleep inside the waiting loop of \<open>CacheReqHandler\<close>, takes the actions
  of the others as an explicit schedule.
\<close>

subsection \<open>Constants for cache entry status (lines 20-25)\<close>

definition EMPTY :: int where "EMPTY = 0"
definition AVAILABLE :: int where "AVAILABLE = 1"
definition IN_PROGRESS :: int where "IN_PROGRESS = 2"

subsection \<open>The operating system, as far as the program uses it\<close>

type_synonym byte = "8 word"

datatype error =
    EOF
  | ENOENT
  | EEXIST
  | EACCES
  | EISDIR
  | ENOTDIR
  | ENOSPC
  | ErrClosed
  | ErrText string

datatype node = Dir | File "byte list"

text \<open>
  The file system is a list of paths with their nodes. The path of a file has no slash at
  its end, the path of a directory has one. Paths are compared as they are written: there
  is no normalisation of \<open>.\<close>, \<open>..\<close>, doubled slashes or links. The program only ever uses
  two kinds of path, \<open>cachedir\<close> (which \<open>cacheInit\<close> makes end in a slash) and
  \<open>cachedir + shaname\<close>.
\<close>

type_synonym filesys = "(string \<times> node) list"

datatype syscall = SysOpen | SysStat | SysCreate | SysMkdir | SysReadDir

text \<open>The compiled pattern \<open>re\<close>, seen through its only use, \<open>FindStringSubmatch\<close>:
  \<open>None\<close> is Go's \<open>nil\<close> result.\<close>

type_synonym regexp = "string \<Rightarrow> string list option"

record world =
  re :: regexp
  cachedir :: string
  cache :: "string \<rightharpoonup> int"
  fs :: filesys
  faulty :: "syscall \<Rightarrow> string \<Rightarrow> bool"
  disk_free :: nat

text \<open>Reading a Go map at a missing key gives the zero value, here \<open>EMPTY\<close>.\<close>

definition cache_get :: "world \<Rightarrow> string \<Rightarrow> int" where
  "cache_get w k = (case cache w k of None \<Rightarrow> EMPTY | Some v \<Rightarrow> v)"

definition cache_set :: "string \<Rightarrow> int \<Rightarrow> world \<Rightarrow> world" where
  "cache_set k v w = w\<lparr>cache := (cache w)(k \<mapsto> v)\<rparr>"

text \<open>An open file (\<open>*os.File\<close>): the path it was opened on, its offset, and whether it
  has been closed. A handle follows its path: files are not renamed or removed while open.\<close>

record os_file =
  f_name :: string
  f_off :: nat
  f_closed :: bool

record FileInfo =
  fi_size :: int
  fi_isdir :: bool

definition node_info :: "node \<Rightarrow> FileInfo" where
  "node_info n = (case n of
       Dir \<Rightarrow> \<lparr>fi_size = 0, fi_isdir = True\<rparr>
     | File c \<Rightarrow> \<lparr>fi_size = int (length c), fi_isdir = False\<rparr>)"

text \<open>A path without the slash at its end, if it has one.\<close>

definition unslash :: "string \<Rightarrow> string" where
  "unslash p = (if p \<noteq> [] \<and> last p = CHR ''/'' then butlast p else p)"

text \<open>A directory is also found under its name without the slash.\<close>

definition node_at :: "filesys \<Rightarrow> string \<Rightarrow> node option" where
  "node_at F p =
     (case map_of F p of
        Some n \<Rightarrow> Some n
      | None \<Rightarrow>
          if p \<noteq> [] \<and> last p \<noteq> CHR ''/'' \<and> map_of F (p @ ''/'') = Some Dir then Some Dir
          else None)"

definition os_Stat :: "string \<Rightarrow> world \<Rightarrow> error + FileInfo" where
  "os_Stat p w =
     (if faulty w SysStat p then Inl EACCES
      else case node_at (fs w) p of
             None \<Rightarrow> Inl ENOENT
           | Some n \<Rightarrow> Inr (node_info n))"

definition os_Open :: "string \<Rightarrow> world \<Rightarrow> error + os_file" where
  "os_Open p w =
     (if faulty w SysOpen p then Inl EACCES
      else case node_at (fs w) p of
             None \<Rightarrow> Inl ENOENT
           | Some n \<Rightarrow> Inr \<lparr>f_name = p, f_off = 0, f_closed = False\<rparr>)"

text \<open>The directory part of a path, everything up to and including its last slash, and
  the directory a node lies in.\<close>

definition dirname :: "string \<Rightarrow> string" where
  "dirname p = rev (dropWhile (\<lambda>c. c \<noteq> CHR ''/'') (rev p))"

definition parent :: "string \<Rightarrow> string" where
  "parent p = dirname (unslash p)"

text \<open>\<open>os.Create\<close> opens for writing, creating the file or truncating it to length 0.\<close>

definition os_Create :: "string \<Rightarrow> world \<Rightarrow> error + (os_file \<times> world)" where
  "os_Create p w =
     (if faulty w SysCreate p then Inl EACCES
      else if map_of (fs w) (parent p) \<noteq> Some Dir then Inl ENOENT
      else if node_at (fs w) p = Some Dir then Inl EISDIR
      else Inr (\<lparr>f_name = p, f_off = 0, f_closed = False\<rparr>,
                w\<lparr>fs := AList.update p (File []) (fs w)\<rparr>))"

text \<open>\<open>os.Mkdir\<close> fails when something of that name is there already, be it a file or a
  directory, and when the directory it is to lie in is missing.\<close>

definition os_Mkdir :: "string \<Rightarrow> world \<Rightarrow> error + world" where
  "os_Mkdir p w =
     (if faulty w SysMkdir p then Inl EACCES
      else if map_of (fs w) (unslash p) \<noteq> None \<or> map_of (fs w) (unslash p @ ''/'') \<noteq> None
      then Inl EEXIST
      else if parent p \<noteq> [] \<and> map_of (fs w) (parent p) \<noteq> Some Dir then Inl ENOENT
      else Inr (w\<lparr>fs := AList.update (unslash p @ ''/'') Dir (fs w)\<rparr>))"

text \<open>The entries of the directory \<open>d\<close> (given with its slash): the nodes whose path is
  that of \<open>d\<close> followed by a name without a slash, files and directories alike.\<close>

definition entry_of :: "string \<Rightarrow> string \<Rightarrow> string option" where
  "entry_of d p =
     (if take (length d) p = d \<and> unslash (drop (length d) p) \<noteq> []
         \<and> CHR ''/'' \<notin> set (unslash (drop (length d) p))
      then Some (unslash (drop (length d) p)) else None)"

definition os_ReadDir :: "string \<Rightarrow> world \<Rightarrow> error + string list" where
  "os_ReadDir d w =
     (if faulty w SysReadDir d then Inl EACCES
      else case map_of (fs w) d of
             None \<Rightarrow> Inl ENOENT
           | Some (File c) \<Rightarrow> Inl ENOTDIR
           | Some Dir \<Rightarrow> Inr (List.map_filter (entry_of d) (map fst (fs w))))"

text \<open>Writing \<open>b\<close> at the offset of the handle. Bytes between the end of the file and the
  offset read as zero. The disk takes \<open>disk_free\<close> more bytes; a write that is cut short
  reports how many bytes went through, with an error.\<close>

definition write_at :: "nat \<Rightarrow> byte list \<Rightarrow> byte list \<Rightarrow> byte list" where
  "write_at off b c =
     take off c @ replicate (off - length c) 0 @ b @ drop (off + length b) c"

definition os_Write :: "os_file \<Rightarrow> byte list \<Rightarrow> world \<Rightarrow> (int \<times> error option) \<times> os_file \<times> world" where
  "os_Write h b w =
     (if f_closed h then ((0, Some ErrClosed), h, w)
      else case map_of (fs w) (f_name h) of
             Some (File c) \<Rightarrow>
               (let k = min (length b) (disk_free w)
                in ((int k, if k < length b then Some ENOSPC else None),
                    h\<lparr>f_off := f_off h + k\<rparr>,
                    w\<lparr>fs := AList.update (f_name h) (File (write_at (f_off h) (take k b) c)) (fs w),
                      disk_free := disk_free w - k\<rparr>))
           | _ \<Rightarrow> ((0, Some ENOENT), h, w))"

definition os_Close :: "os_file \<Rightarrow> error option \<times> os_file" where
  "os_Close h = (if f_closed h then (Some ErrClosed, h) else (None, h\<lparr>f_closed := True\<rparr>))"

text \<open>Reading from an open file into a buffer of \<open>n\<close> bytes.\<close>

definition os_Read :: "os_file \<Rightarrow> nat \<Rightarrow> world \<Rightarrow> (byte list \<times> error option) \<times> os_file" where
  "os_Read h n w =
     (if f_closed h then (([], Some ErrClosed), h)
      else case node_at (fs w) (f_name h) of
             Some (File c) \<Rightarrow>
               (if n = 0 then (([], None), h)
                else if length c \<le> f_off h then (([], Some EOF), h)
                else ((take n (drop (f_off h) c), None),
                      h\<lparr>f_off := f_off h + min n (length c - f_off h)\<rparr>))
           | Some Dir \<Rightarrow> (([], Some EISDIR), h)
           | None \<Rightarrow> (([], Some ENOENT), h))"

subsection \<open>Response bodies\<close>

text \<open>
  The body that comes from upstream is an \<open>io.ReadCloser\<close> the program knows nothing
  about. It is modelled by the results its successive \<open>Read\<close> calls are going to give:
  each element is a block of data with the error reported when the block is used up. A
  block larger than the caller's buffer is handed out in pieces. This covers short reads,
  reads of nothing, data that arrives together with an error, and the end of the stream.
\<close>

type_synonym stream = "(byte list \<times> error option) list"

fun stream_Read :: "stream \<Rightarrow> nat \<Rightarrow> (byte list \<times> error option) \<times> stream" where
  "stream_Read [] n = (([], Some EOF), [])"
| "stream_Read ((bs, e) # rest) n =
     (if length bs \<le> n then ((bs, e), rest)
      else ((take n bs, None), (drop n bs, e) # rest))"

text \<open>
  \<open>cacheTeeReader\<close> (lines 34-42) holds a body and is itself used as a body, so the two
  types are declared together and the struct becomes a datatype with one constructor; its
  fields keep their names behind the prefix \<open>tee_\<close>. The field \<open>ctx\<close> is only used for
  the log. \<open>NopCloser\<close> is \<open>ioutil.NopCloser\<close> around an open file.
\<close>

datatype body =
    Upstream stream
  | NopCloser os_file
  | Tee cacheTeeReader
and cacheTeeReader =
    CacheTeeReader (tee_shaname: string) (tee_fname: string) (tee_f: os_file)
                   (tee_body: body) (tee_nbread: int) (tee_nbwritten: int)

record request =
  URL_Path :: string
  req_TransferEncoding :: "string list"

type_synonym header = "string \<rightharpoonup> string list"

definition Header_Add :: "header \<Rightarrow> string \<Rightarrow> string \<Rightarrow> header" where
  "Header_Add h k v = h(k \<mapsto> (case h k of None \<Rightarrow> [] | Some vs \<Rightarrow> vs) @ [v])"

record response =
  StatusCode :: int
  Header :: header
  ContentLength :: int
  Body :: body
  Request :: request
  TransferEncoding :: "string list"

subsection \<open>The tee reader (lines 44-91)\<close>

definition newCacheTeeReader :: "string \<Rightarrow> body \<Rightarrow> world \<Rightarrow> error + (cacheTeeReader \<times> world)" where
  "newCacheTeeReader shaname b w =
     (case os_Create (cachedir w @ shaname) w of
        Inl err \<Rightarrow> Inl (ErrText ''Could not open file'')
      | Inr (h, w') \<Rightarrow> Inr (CacheTeeReader shaname (cachedir w @ shaname) h b 0 0, w'))"

text \<open>
  \<open>Read(p)\<close> returns the buffer as the call leaves it, the count and the error, together
  with the reader and the world after the call. \<open>Read_body\<close> dispatches on the kind of
  body, as the interface call \<open>tee.body.Read(p)\<close> does.
\<close>

fun Read_body :: "body \<Rightarrow> byte list \<Rightarrow> world \<Rightarrow> (byte list \<times> int \<times> error option) \<times> body \<times> world"
and Read :: "cacheTeeReader \<Rightarrow> byte list \<Rightarrow> world \<Rightarrow> (byte list \<times> int \<times> error option) \<times> cacheTeeReader \<times> world"
where
  "Read_body (Upstream s) p w =
     (case stream_Read s (length p) of
        ((bs, e), s') \<Rightarrow> ((bs @ drop (length bs) p, int (length bs), e), Upstream s', w))"
| "Read_body (NopCloser h) p w =
     (case os_Read h (length p) w of
        ((bs, e), h') \<Rightarrow> ((bs @ drop (length bs) p, int (length bs), e), NopCloser h', w))"
| "Read_body (Tee t) p w =
     (case Read t p w of (r, t', w') \<Rightarrow> (r, Tee t', w'))"
| "Read (CacheTeeReader shaname fname h b nbread nbwritten) p w =
     (case Read_body b p w of
        ((p', nread, err), b', w1) \<Rightarrow>
          (if nread > 0 then
             (case os_Write h (take (nat nread) p') w1 of
                ((nbytes, err2), h', w2) \<Rightarrow>
                  ((p', nread, err),
                   CacheTeeReader shaname fname h' b' (nbread + nread) (nbwritten + nbytes), w2))
           else ((p', nread, err),
                 CacheTeeReader shaname fname h b' (nbread + nread) nbwritten, w1)))"

text \<open>\<open>Close\<close> closes the file and marks the layer; the wrapped body is not closed.\<close>

definition Close :: "cacheTeeReader \<Rightarrow> world \<Rightarrow> error option \<times> cacheTeeReader \<times> world" where
  "Close t w =
     (case os_Close (tee_f t) of
        (e, h') \<Rightarrow>
          (None,
           CacheTeeReader (tee_shaname t) (tee_fname t) h' (tee_body t) (tee_nbread t) (tee_nbwritten t),
           cache_set (tee_shaname t) AVAILABLE w))"

text \<open>
  What the consumer of a response gets out of its body. It reads with a buffer of \<open>n\<close>
  bytes until a \<open>Read\<close> reports an error, and the end of the stream is the regular way
  out (as in \<open>io.ReadAll\<close>). \<open>fuel\<close> bounds the number of reads; \<open>None\<close> means the
  bound was reached before the body ended.
\<close>

fun ReadAll :: "nat \<Rightarrow> nat \<Rightarrow> body \<Rightarrow> world \<Rightarrow> ((byte list \<times> error option) \<times> body \<times> world) option" where
  "ReadAll 0 n b w = None"
| "ReadAll (Suc fuel) n b w =
     (case Read_body b (replicate n 0) w of
        ((p, nread, err), b', w') \<Rightarrow>
          (case err of
             Some e \<Rightarrow> Some ((take (nat nread) p, if e = EOF then None else Some e), b', w')
           | None \<Rightarrow>
               (case ReadAll fuel n b' w' of
                  None \<Rightarrow> None
                | Some ((rest, e), b'', w'') \<Rightarrow> Some ((take (nat nread) p @ rest, e), b'', w''))))"

subsection \<open>Start-up (lines 93-120)\<close>

definition HasSuffix :: "string \<Rightarrow> string \<Rightarrow> bool" where
  "HasSuffix s suffix =
     (length suffix \<le> length s \<and> drop (length s - length suffix) s = suffix)"

text \<open>\<open>log.Fatal\<close> ends the process: \<open>cacheInit\<close> then returns the error instead of a
  world.\<close>

definition cacheInit :: "world \<Rightarrow> error + world" where
  "cacheInit w0 =
     (let w = (if \<not> HasSuffix (cachedir w0) ''/'' then w0\<lparr>cachedir := cachedir w0 @ ''/''\<rparr> else w0);
          checked =
            (case os_Stat (cachedir w) w of
               Inl err \<Rightarrow> os_Mkdir (cachedir w) w
             | Inr stat \<Rightarrow> if \<not> fi_isdir stat then os_Mkdir (cachedir w) w else Inr w)
      in case checked of
           Inl err \<Rightarrow> Inl err
         | Inr w1 \<Rightarrow>
             (let w2 = w1\<lparr>cache := Map.empty\<rparr>
              in case os_ReadDir (cachedir w2) w2 of
                   Inl err \<Rightarrow> Inl err
                 | Inr files \<Rightarrow> Inr (fold (\<lambda>file. cache_set file AVAILABLE) files w2)))"

subsection \<open>The pattern of line 28\<close>

text \<open>
  Every theorem below holds for any pattern in \<open>re\<close>. For running the model there is
  \<open>docker_re\<close>, the leftmost match of
  \<^verbatim>\<open>/registry-v2/docker/registry/v2/blobs/sha256/../(?P<shaname>[^/]+)/\<close>
  on paths made of one-byte characters: the literal part, two characters other than a line
  feed, a slash, the longest run of characters other than a slash (not empty), and a
  slash. The result lists the whole match and the group.
\<close>

definition re_literal :: string where
  "re_literal = ''/registry-v2/docker/registry/v2/blobs/sha256/''"

definition match_here :: "string \<Rightarrow> string list option" where
  "match_here s =
     (if take (length re_literal) s = re_literal then
        (case drop (length re_literal) s of
           a # b # c # rest \<Rightarrow>
             (let name = takeWhile (\<lambda>x. x \<noteq> CHR ''/'') rest in
              if a \<noteq> CHR 0x0A \<and> b \<noteq> CHR 0x0A \<and> c = CHR ''/'' \<and> name \<noteq> []
                 \<and> dropWhile (\<lambda>x. x \<noteq> CHR ''/'') rest \<noteq> []
              then Some [re_literal @ [a, b, c] @ name @ ''/'', name]
              else None)
         | _ \<Rightarrow> None)
      else None)"

fun docker_re :: regexp where
  "docker_re [] = None"
| "docker_re (c # cs) =
     (case match_here (c # cs) of Some res \<Rightarrow> Some res | None \<Rightarrow> docker_re cs)"

subsection \<open>The two hooks (lines 122-225)\<close>

definition shouldBeCached :: "string \<Rightarrow> world \<Rightarrow> string" where
  "shouldBeCached urlpath w =
     (case re w urlpath of
        None \<Rightarrow> ''''
      | Some res \<Rightarrow> if length res > 1 then res ! 1 else '''')"

text \<open>
  The waiting loop of \<open>CacheReqHandler\<close> (lines 153-159). Between two looks at the index
  the goroutine gives up the lock and sleeps, and whatever the other goroutines do in the
  meantime is the next element of \<open>others\<close>. When the schedule is used up nobody changes
  the world any more, so a layer that is still \<open>IN_PROGRESS\<close> keeps the loop turning
  for ever: the result is \<open>None\<close>.
\<close>

fun wait_for_download :: "string \<Rightarrow> (world \<Rightarrow> world) list \<Rightarrow> world \<Rightarrow> world option" where
  "wait_for_download shaname [] w =
     (if cache_get w shaname = IN_PROGRESS then None else Some w)"
| "wait_for_download shaname (other # others) w =
     (if cache_get w shaname = IN_PROGRESS then wait_for_download shaname others (other w)
      else Some w)"

definition CacheReqHandler ::
  "(world \<Rightarrow> world) list \<Rightarrow> request \<Rightarrow> world \<Rightarrow> ((request \<times> response option) \<times> world) option" where
  "CacheReqHandler others req w =
     (let shaname = shouldBeCached (URL_Path req) w in
      if shaname \<noteq> '''' then
        (case wait_for_download shaname others w of
           None \<Rightarrow> None
         | Some w1 \<Rightarrow>
             if cache_get w1 shaname = AVAILABLE then
               (case os_Open (cachedir w1 @ shaname) w1 of
                  Inl err \<Rightarrow> Some ((req, None), w1)
                | Inr h \<Rightarrow>
                    (case os_Stat (cachedir w1 @ shaname) w1 of
                       Inl err \<Rightarrow> Some ((req, None), w1)
                     | Inr fi \<Rightarrow>
                         Some ((req,
                                Some \<lparr>StatusCode = 200,
                                      Header = Header_Add Map.empty ''Content-Type''
                                                 ''application/octet-stream'',
                                      ContentLength = fi_size fi,
                                      Body = NopCloser h,
                                      Request = req,
                                      TransferEncoding = req_TransferEncoding req\<rparr>),
                               w1)))
             else Some ((req, None), cache_set shaname IN_PROGRESS w1))
      else Some ((req, None), w))"

definition CacheRespHandler :: "response \<Rightarrow> world \<Rightarrow> response \<times> world" where
  "CacheRespHandler resp w =
     (if StatusCode resp \<noteq> 200 then (resp, w)
      else
        (let shaname = shouldBeCached (URL_Path (Request resp)) w in
         if shaname \<noteq> '''' then
           (if cache_get w shaname = AVAILABLE then (resp, w)
            else
              (case newCacheTeeReader shaname (Body resp) w of
                 Inr (tee, w') \<Rightarrow> (resp\<lparr>Body := Tee tee\<rparr>, w')
               | Inl err \<Rightarrow> (resp, w)))
         else (resp, w)))"

subsection \<open>Vocabulary of the properties\<close>

text \<open>An index entry holds one of the three constants.\<close>

definition known :: "int \<Rightarrow> bool" where
  "known a \<longleftrightarrow> a = EMPTY \<or> a = IN_PROGRESS \<or> a = AVAILABLE"

text \<open>The moves in the order \<open>EMPTY\<close>, \<open>IN_PROGRESS\<close>, \<open>AVAILABLE\<close>: staying, or going to
  a later state.\<close>

definition forward :: "int \<Rightarrow> int \<Rightarrow> bool" where
  "forward a b \<longleftrightarrow>
     b = a \<or> (a = EMPTY \<and> (b = IN_PROGRESS \<or> b = AVAILABLE)) \<or> (a = IN_PROGRESS \<and> b = AVAILABLE)"

text \<open>A handle that is open on a file, at the end of it.\<close>

definition at_end :: "world \<Rightarrow> os_file \<Rightarrow> bool" where
  "at_end w h \<longleftrightarrow>
     \<not> f_closed h \<and>
     (case map_of (fs w) (f_name h) of Some (File c) \<Rightarrow> f_off h = length c | _ \<Rightarrow> False)"

text \<open>Every node of a file system lies in a directory that exists.\<close>

definition fs_wf :: "filesys \<Rightarrow> bool" where
  "fs_wf F \<longleftrightarrow> (\<forall>p \<in> set (map fst F). parent p = [] \<or> map_of F (parent p) = Some Dir)"

subsection \<open>States for running the model\<close>

definition layer_path :: string where
  "layer_path = ''/registry-v2/docker/registry/v2/blobs/sha256/ab/abc123/data''"

definition layer_req :: request where
  "layer_req = \<lparr>URL_Path = layer_path, req_TransferEncoding = []\<rparr>"

definition no_faults :: "syscall \<Rightarrow> string \<Rightarrow> bool" where
  "no_faults s p = False"

text \<open>A store that exists and is empty, with room for four more bytes on the disk.\<close>

definition fresh_world :: world where
  "fresh_world =
     \<lparr>re = docker_re, cachedir = ''/tmp/proxy/'', cache = Map.empty,
      fs = [(''/'', Dir), (''/tmp/'', Dir), (''/tmp/proxy/'', Dir)],
      faulty = no_faults, disk_free = 4\<rparr>"

text \<open>The layer \<open>abc123\<close> is in the store and in the index.\<close>

definition cached_world :: world where
  "cached_world =
     fresh_world\<lparr>cache := [''abc123'' \<mapsto> AVAILABLE],
                 fs := [(''/'', Dir), (''/tmp/'', Dir), (''/tmp/proxy/'', Dir),
                        (''/tmp/proxy/abc123'', File [1, 2, 3])]\<rparr>"

text \<open>The index says \<open>AVAILABLE\<close>, the file has been removed behind the program's back.\<close>

definition broken_world :: world where
  "broken_world = fresh_world\<lparr>cache := [''abc123'' \<mapsto> AVAILABLE]\<rparr>"

text \<open>The request hook has let a first request for \<open>abc123\<close> through.\<close>

definition fetching_world :: world where
  "fetching_world = fresh_world\<lparr>cache := [''abc123'' \<mapsto> IN_PROGRESS]\<rparr>"

text \<open>The same, but files cannot be created in the store.\<close>

definition readonly_world :: world where
  "readonly_world = fetching_world\<lparr>faulty := (\<lambda>s p. s = SysCreate)\<rparr>"

text \<open>Answers from upstream to \<open>layer_req\<close>: five bytes, delivered in two blocks.\<close>

definition upstream_body :: body where
  "upstream_body = Upstream [([1, 2, 3], None), ([4, 5], Some EOF)]"

definition upstream_resp :: "int \<Rightarrow> response" where
  "upstream_resp code =
     \<lparr>StatusCode = code, Header = Map.empty, ContentLength = 5, Body = upstream_body,
      Request = layer_req, TransferEncoding = []\<rparr>"

text \<open>The tee reader that \<open>CacheRespHandler\<close> puts on \<open>upstream_resp 200\<close>.\<close>

definition layer_tee :: cacheTeeReader where
  "layer_tee =
     CacheTeeReader ''abc123'' ''/tmp/proxy/abc123''
       \<lparr>f_name = ''/tmp/proxy/abc123'', f_off = 0, f_closed = False\<rparr> upstream_body 0 0"

text \<open>The response hook puts a tee reader on the answer, and the body is read twice with a
  buffer of four bytes, on a disk that takes four bytes. \<open>cut_tee\<close> and \<open>cut_world\<close> are
  the reader and the world this ends in.\<close>

definition short_write_run ::
  "(byte list \<times> int \<times> error option) \<times> (byte list \<times> int \<times> error option) \<times> body \<times> world" where
  "short_write_run =
     (case CacheRespHandler (upstream_resp 200) fetching_world of
        (resp, w0) \<Rightarrow>
          (case Read_body (Body resp) [0, 0, 0, 0] w0 of
             (r1, b1, w1) \<Rightarrow>
               (case Read_body b1 [0, 0, 0, 0] w1 of
                  (r2, b2, w2) \<Rightarrow> (r1, r2, b2, w2))))"

definition cut_tee :: cacheTeeReader where
  "cut_tee =
     CacheTeeReader ''abc123'' ''/tmp/proxy/abc123''
       \<lparr>f_name = ''/tmp/proxy/abc123'', f_off = 4, f_closed = False\<rparr> (Upstream []) 5 4"

definition cut_world :: world where
  "cut_world =
     fetching_world\<lparr>fs := [(''/'', Dir), (''/tmp/'', Dir), (''/tmp/proxy/'', Dir),
                            (''/tmp/proxy/abc123'', File [1, 2, 3, 4])],
                    disk_free := 0\<rparr>"

text \<open>The world once \<open>CacheRespHandler\<close> has created the file, and the reader and world
  after a first read with a buffer of four bytes.\<close>

definition created_world :: world where
  "created_world =
     fetching_world\<lparr>fs := [(''/'', Dir), (''/tmp/'', Dir), (''/tmp/proxy/'', Dir),
                            (''/tmp/proxy/abc123'', File [])]\<rparr>"

definition half_tee :: cacheTeeReader where
  "half_tee =
     CacheTeeReader ''abc123'' ''/tmp/proxy/abc123''
       \<lparr>f_name = ''/tmp/proxy/abc123'', f_off = 3, f_closed = False\<rparr>
       (Upstream [([4, 5], Some EOF)]) 3 3"

definition half_world :: world where
  "half_world =
     fetching_world\<lparr>fs := [(''/'', Dir), (''/tmp/'', Dir), (''/tmp/proxy/'', Dir),
                            (''/tmp/proxy/abc123'', File [1, 2, 3])],
                    disk_free := 1\<rparr>"

text \<open>The layer is in the store and the process starts: the index has no entries yet.\<close>

definition restart_world :: world where
  "restart_world = cached_world\<lparr>cache := Map.empty\<rparr>"

text \<open>What another goroutine does while the request hook sleeps: it closes its reader.\<close>

definition other_closes :: "world \<Rightarrow> world" where
  "other_closes v = snd (snd (Close layer_tee v))"

text \<open>A first start: the directory given on the command line, without a slash at the end,
  does not exist yet. And the same with a parent directory that cannot be written.\<close>

definition cold_world :: world where
  "cold_world = fresh_world\<lparr>cachedir := ''/tmp/proxy'', fs := [(''/'', Dir), (''/tmp/'', Dir)]\<rparr>"

definition sealed_world :: world where
  "sealed_world = cold_world\<lparr>faulty := (\<lambda>s p. s = SysMkdir)\<rparr>"

text \<open>The store is there but cannot be listed.\<close>

definition unlisted_world :: world where
  "unlisted_world = restart_world\<lparr>faulty := (\<lambda>s p. s = SysReadDir)\<rparr>"

section \<open>Properties\<close>

subsection \<open>Auxiliary facts\<close>

lemma status_distinct:
  "EMPTY \<noteq> AVAILABLE" "EMPTY \<noteq> IN_PROGRESS" "AVAILABLE \<noteq> IN_PROGRESS"
  "AVAILABLE \<noteq> EMPTY" "IN_PROGRESS \<noteq> EMPTY" "IN_PROGRESS \<noteq> AVAILABLE"
  by (simp_all add: EMPTY_def AVAILABLE_def IN_PROGRESS_def)

lemma cache_get_cache_set:
  "cache_get (cache_set k v w) k' = (if k' = k then v else cache_get w k')"
  by (simp add: cache_get_def cache_set_def)

lemma node_at_map_of:
  "map_of F p = Some n \<Longrightarrow> node_at F p = Some n"
  by (simp add: node_at_def)

lemma node_at_File:
  "node_at F p = Some (File c) \<longleftrightarrow> map_of F p = Some (File c)"
  by (auto simp: node_at_def split: option.splits if_splits)

lemma node_at_slash:
  "p \<noteq> [] \<Longrightarrow> last p = CHR ''/'' \<Longrightarrow> node_at F p = map_of F p"
  by (auto simp: node_at_def split: option.splits)

lemma wait_for_download_ready:
  "cache_get w k \<noteq> IN_PROGRESS \<Longrightarrow> wait_for_download k others w = Some w"
  by (cases others) simp_all

lemma docker_re_example:
  "docker_re layer_path =
     Some [''/registry-v2/docker/registry/v2/blobs/sha256/ab/abc123/'', ''abc123'']"
  by (simp add: layer_path_def match_here_def re_literal_def)

lemma docker_re_other:
  "docker_re ''/v2/other/path'' = None"
  by (simp add: match_here_def re_literal_def)

subsection \<open>The request hook on a layer that is not in the index\<close>

text \<open>
  C1. When the path of the request names a layer whose index entry reads \<open>EMPTY\<close> (the
  key is missing from the map), \<open>CacheReqHandler\<close> returns at once, whatever the other
  goroutines are about to do, hands back the request as it came with no response, and the
  index afterwards holds \<open>IN_PROGRESS\<close> for the layer.
\<close>

theorem CacheReqHandler_first_request:
  assumes "shouldBeCached (URL_Path req) w = k" and "k \<noteq> ''''"
    and "cache_get w k = EMPTY"
  shows "CacheReqHandler others req w = Some ((req, None), cache_set k IN_PROGRESS w)
         \<and> cache (cache_set k IN_PROGRESS w) k = Some IN_PROGRESS
         \<and> cache_get (cache_set k IN_PROGRESS w) k = IN_PROGRESS"
proof -
  from assms(3) have "wait_for_download k others w = Some w"
    by (simp add: wait_for_download_ready status_distinct)
  with assms show ?thesis
    by (simp add: CacheReqHandler_def status_distinct cache_get_cache_set)
       (simp add: cache_set_def)
qed

lemma shouldBeCached_layer_path:
  "re w = docker_re \<Longrightarrow> shouldBeCached layer_path w = ''abc123''"
  by (simp add: shouldBeCached_def docker_re_example)

theorem CacheReqHandler_first_request_witness:
  "shouldBeCached (URL_Path layer_req) fresh_world = ''abc123''
   \<and> cache_get fresh_world ''abc123'' = EMPTY
   \<and> CacheReqHandler [] layer_req fresh_world
       = Some ((layer_req, None), cache_set ''abc123'' IN_PROGRESS fresh_world)
   \<and> cache_get (cache_set ''abc123'' IN_PROGRESS fresh_world) ''abc123'' = IN_PROGRESS"
proof -
  have k: "shouldBeCached (URL_Path layer_req) fresh_world = ''abc123''"
    by (simp add: layer_req_def shouldBeCached_layer_path fresh_world_def)
  have e: "cache_get fresh_world ''abc123'' = EMPTY"
    by (simp add: cache_get_def fresh_world_def)
  have n: "''abc123'' \<noteq> ''''" by simp
  from CacheReqHandler_first_request [OF k n e, of "[]"] k e show ?thesis by simp
qed

subsection \<open>The response hook on a failed fetch\<close>

text \<open>
  C6. A response whose status is not 200 comes back from \<open>CacheRespHandler\<close> exactly as
  it went in, with the body it had (no tee reader around it), and the world is the same:
  no file has appeared in the store and the index entry of every layer, the one named by
  the request included, is what it was.
\<close>

theorem CacheRespHandler_not_200:
  assumes "StatusCode resp \<noteq> 200"
  shows "CacheRespHandler resp w = (resp, w)
         \<and> Body (fst (CacheRespHandler resp w)) = Body resp
         \<and> fs (snd (CacheRespHandler resp w)) = fs w
         \<and> cache_get (snd (CacheRespHandler resp w)) k = cache_get w k"
  using assms by (simp add: CacheRespHandler_def)

lemma fetching_world_facts:
  "shouldBeCached (URL_Path (Request (upstream_resp c))) fetching_world = ''abc123''"
  "cache_get fetching_world ''abc123'' = IN_PROGRESS"
  "map_of (fs fetching_world) ''/tmp/proxy/abc123'' = None"
  "cachedir fetching_world = ''/tmp/proxy/''"
  by (simp_all add: upstream_resp_def layer_req_def shouldBeCached_layer_path
        fetching_world_def fresh_world_def cache_get_def)

theorem CacheRespHandler_not_200_witness:
  "StatusCode (upstream_resp 404) \<noteq> 200
   \<and> CacheRespHandler (upstream_resp 404) fetching_world = (upstream_resp 404, fetching_world)
   \<and> Body (fst (CacheRespHandler (upstream_resp 404) fetching_world)) = upstream_body
   \<and> map_of (fs (snd (CacheRespHandler (upstream_resp 404) fetching_world))) ''/tmp/proxy/abc123'' = None
   \<and> cache_get (snd (CacheRespHandler (upstream_resp 404) fetching_world)) ''abc123'' = IN_PROGRESS"
proof -
  have s: "StatusCode (upstream_resp 404) \<noteq> 200"
    by (simp add: upstream_resp_def)
  have b: "Body (upstream_resp 404) = upstream_body"
    by (simp add: upstream_resp_def)
  from CacheRespHandler_not_200 [OF s, of fetching_world "''abc123''"] s b
  show ?thesis by (simp add: fetching_world_facts)
qed

text \<open>For comparison, the same state with status 200: the file is created and the body is
  replaced by the tee reader.\<close>

lemma os_Create_fetching_world:
  "os_Create ''/tmp/proxy/abc123'' fetching_world =
     Inr (\<lparr>f_name = ''/tmp/proxy/abc123'', f_off = 0, f_closed = False\<rparr>,
          fetching_world\<lparr>fs := [(''/'', Dir), (''/tmp/'', Dir), (''/tmp/proxy/'', Dir),
                                 (''/tmp/proxy/abc123'', File [])]\<rparr>)"
  by (simp add: os_Create_def parent_def unslash_def dirname_def node_at_def
        fetching_world_def fresh_world_def no_faults_def)

lemma CacheRespHandler_200_example:
  "CacheRespHandler (upstream_resp 200) fetching_world =
     ((upstream_resp 200)\<lparr>Body := Tee layer_tee\<rparr>,
      fetching_world\<lparr>fs := [(''/'', Dir), (''/tmp/'', Dir), (''/tmp/proxy/'', Dir),
                             (''/tmp/proxy/abc123'', File [])]\<rparr>)"
proof -
  have "StatusCode (upstream_resp 200) = 200" "Body (upstream_resp 200) = upstream_body"
    by (simp_all add: upstream_resp_def)
  then show ?thesis
    by (simp add: CacheRespHandler_def Let_def fetching_world_facts status_distinct
          newCacheTeeReader_def os_Create_fetching_world layer_tee_def)
qed

subsection \<open>The response hook when the file cannot be created\<close>

text \<open>
  C7. When \<open>os.Create\<close> fails on the file of the layer, \<open>newCacheTeeReader\<close> returns its
  error, and \<open>CacheRespHandler\<close> returns the response with the body it came with and
  leaves the world alone; an index entry that read \<open>IN_PROGRESS\<close> still does.
\<close>

theorem CacheRespHandler_create_fails:
  assumes "shouldBeCached (URL_Path (Request resp)) w = k"
    and "os_Create (cachedir w @ k) w = Inl e"
  shows "newCacheTeeReader k (Body resp) w = Inl (ErrText ''Could not open file'')
         \<and> CacheRespHandler resp w = (resp, w)
         \<and> Body (fst (CacheRespHandler resp w)) = Body resp
         \<and> (cache_get w k = IN_PROGRESS
              \<longrightarrow> cache_get (snd (CacheRespHandler resp w)) k = IN_PROGRESS)"
proof -
  from assms(2) have n: "newCacheTeeReader k (Body resp) w = Inl (ErrText ''Could not open file'')"
    by (simp add: newCacheTeeReader_def)
  with assms(1) have "CacheRespHandler resp w = (resp, w)"
    by (simp add: CacheRespHandler_def)
  with n show ?thesis by simp
qed

lemma readonly_world_facts:
  "shouldBeCached (URL_Path (Request (upstream_resp c))) readonly_world = ''abc123''"
  "cache_get readonly_world ''abc123'' = IN_PROGRESS"
  "cachedir readonly_world = ''/tmp/proxy/''"
  "os_Create ''/tmp/proxy/abc123'' readonly_world = Inl EACCES"
  by (simp_all add: upstream_resp_def layer_req_def shouldBeCached_layer_path
        readonly_world_def fetching_world_def fresh_world_def cache_get_def os_Create_def)

theorem CacheRespHandler_create_fails_witness:
  "StatusCode (upstream_resp 200) = 200
   \<and> os_Create (cachedir readonly_world @ ''abc123'') readonly_world = Inl EACCES
   \<and> cache_get readonly_world ''abc123'' = IN_PROGRESS
   \<and> CacheRespHandler (upstream_resp 200) readonly_world = (upstream_resp 200, readonly_world)
   \<and> Body (fst (CacheRespHandler (upstream_resp 200) readonly_world)) = upstream_body
   \<and> cache_get (snd (CacheRespHandler (upstream_resp 200) readonly_world)) ''abc123'' = IN_PROGRESS"
proof -
  have k: "shouldBeCached (URL_Path (Request (upstream_resp 200))) readonly_world = ''abc123''"
    by (rule readonly_world_facts)
  have c: "os_Create (cachedir readonly_world @ ''abc123'') readonly_world = Inl EACCES"
    by (simp add: readonly_world_facts)
  have s: "StatusCode (upstream_resp 200) = 200" "Body (upstream_resp 200) = upstream_body"
    by (simp_all add: upstream_resp_def)
  from CacheRespHandler_create_fails [OF k c] c s
  show ?thesis by (simp add: readonly_world_facts)
qed

subsection \<open>Closing the tee reader\<close>

text \<open>
  C5. \<open>Close\<close> on a tee reader always succeeds: the file is closed afterwards and the index
  holds \<open>AVAILABLE\<close> for the layer. Nothing is asked of the counters \<open>nbread\<close> and
  \<open>nbwritten\<close>, so this includes a reader whose writes to the file were cut short.
\<close>

theorem Close_marks_AVAILABLE:
  "fst (Close t w) = None
   \<and> f_closed (tee_f (fst (snd (Close t w))))
   \<and> snd (snd (Close t w)) = cache_set (tee_shaname t) AVAILABLE w
   \<and> cache_get (snd (snd (Close t w))) (tee_shaname t) = AVAILABLE"
  by (simp add: Close_def os_Close_def cache_get_cache_set)

text \<open>
  A run with a disk that takes four bytes: the five bytes from upstream reach the reader's
  caller, four of them reach the file, and \<open>Close\<close> marks the layer all the same.
\<close>

lemma short_write_run_eq:
  "short_write_run =
     (([1, 2, 3, 0], 3, None), ([4, 5, 0, 0], 2, Some EOF), Tee cut_tee, cut_world)"
  apply (simp only: short_write_run_def CacheRespHandler_200_example prod.case)
  apply (simp add: layer_tee_def upstream_body_def os_Write_def write_at_def
        fetching_world_def fresh_world_def cut_tee_def cut_world_def)
  done

theorem Close_marks_AVAILABLE_witness:
  "short_write_run =
     (([1, 2, 3, 0], 3, None), ([4, 5, 0, 0], 2, Some EOF), Tee cut_tee, cut_world)
   \<and> tee_nbread cut_tee = 5 \<and> tee_nbwritten cut_tee = 4
   \<and> map_of (fs cut_world) (tee_fname cut_tee) = Some (File [1, 2, 3, 4])
   \<and> cache_get cut_world ''abc123'' = IN_PROGRESS
   \<and> fst (Close cut_tee cut_world) = None
   \<and> f_closed (tee_f (fst (snd (Close cut_tee cut_world))))
   \<and> cache_get (snd (snd (Close cut_tee cut_world))) ''abc123'' = AVAILABLE"
proof -
  have "tee_shaname cut_tee = ''abc123''" "tee_nbread cut_tee = 5" "tee_nbwritten cut_tee = 4"
    "map_of (fs cut_world) (tee_fname cut_tee) = Some (File [1, 2, 3, 4])"
    "cache_get cut_world ''abc123'' = IN_PROGRESS"
    by (simp_all add: cut_tee_def cut_world_def fetching_world_def fresh_world_def cache_get_def)
  with Close_marks_AVAILABLE [of cut_tee cut_world] short_write_run_eq
  show ?thesis by (simp add: cache_get_cache_set)
qed

subsection \<open>Marking a layer twice\<close>

text \<open>
  C8. Closing the reader a second time leaves the world of the first \<open>Close\<close> as it is:
  the index is the same map, the layer reads \<open>AVAILABLE\<close> in it, and every other key
  reads what it read before the first \<open>Close\<close>.
\<close>

theorem Close_twice:
  "(case Close t w of
      (e1, t1, w1) \<Rightarrow>
        (case Close t1 w1 of
           (e2, t2, w2) \<Rightarrow>
             e1 = None \<and> e2 = None \<and> w2 = w1 \<and> cache w2 = cache w1
             \<and> cache_get w1 (tee_shaname t) = AVAILABLE
             \<and> (\<forall>k. k \<noteq> tee_shaname t \<longrightarrow> cache_get w1 k = cache_get w k \<and> cache w1 k = cache w k)))"
  by (simp add: Close_def os_Close_def cache_set_def cache_get_def)

theorem Close_twice_witness:
  "(case Close layer_tee fetching_world of
      (e1, t1, w1) \<Rightarrow>
        (case Close t1 w1 of
           (e2, t2, w2) \<Rightarrow>
             w2 = w1 \<and> cache w1 = [''abc123'' \<mapsto> AVAILABLE]
             \<and> cache_get w1 ''abc123'' = AVAILABLE
             \<and> cache_get w1 ''other'' = cache_get fetching_world ''other''))"
  using Close_twice [of layer_tee fetching_world]
  by (simp add: Close_def os_Close_def cache_set_def cache_get_def layer_tee_def
        fetching_world_def fresh_world_def)

subsection \<open>The request hook on a layer whose file cannot be served\<close>

text \<open>
  C10. The index says \<open>AVAILABLE\<close> but \<open>os.Open\<close> or \<open>os.Stat\<close> fails on the file.
  \<open>CacheReqHandler\<close> then returns the request with no response and changes nothing, so the
  entry still reads \<open>AVAILABLE\<close>. Whatever response the fetch that follows brings back for
  this request, \<open>CacheRespHandler\<close> returns it with its own body and changes nothing
  either: no tee reader, no file written, the entry still \<open>AVAILABLE\<close>.
\<close>

theorem CacheReqHandler_unreadable_file:
  assumes "shouldBeCached (URL_Path req) w = k" and "k \<noteq> ''''"
    and "cache_get w k = AVAILABLE"
    and "isl (os_Open (cachedir w @ k) w) \<or> isl (os_Stat (cachedir w @ k) w)"
  shows "CacheReqHandler others req w = Some ((req, None), w)
         \<and> (\<forall>resp. Request resp = req \<longrightarrow>
               CacheRespHandler resp w = (resp, w)
               \<and> Body (fst (CacheRespHandler resp w)) = Body resp
               \<and> fs (snd (CacheRespHandler resp w)) = fs w
               \<and> cache_get (snd (CacheRespHandler resp w)) k = AVAILABLE)"
proof -
  from assms(3) have "wait_for_download k others w = Some w"
    by (simp add: wait_for_download_ready status_distinct)
  with assms have "CacheReqHandler others req w = Some ((req, None), w)"
    by (auto simp: CacheReqHandler_def isl_def split: sum.splits)
  moreover have "CacheRespHandler resp w = (resp, w)" if "Request resp = req" for resp
    using that assms(1,3) by (simp add: CacheRespHandler_def)
  ultimately show ?thesis using assms(3) by simp
qed

lemma broken_world_facts:
  "shouldBeCached (URL_Path layer_req) broken_world = ''abc123''"
  "cache_get broken_world ''abc123'' = AVAILABLE"
  "cachedir broken_world = ''/tmp/proxy/''"
  "os_Open ''/tmp/proxy/abc123'' broken_world = Inl ENOENT"
  "map_of (fs broken_world) ''/tmp/proxy/abc123'' = None"
  by (simp_all add: layer_req_def shouldBeCached_layer_path broken_world_def fresh_world_def
        cache_get_def os_Open_def node_at_def no_faults_def)

theorem CacheReqHandler_unreadable_file_witness:
  "cache_get broken_world ''abc123'' = AVAILABLE
   \<and> os_Open (cachedir broken_world @ ''abc123'') broken_world = Inl ENOENT
   \<and> CacheReqHandler [] layer_req broken_world = Some ((layer_req, None), broken_world)
   \<and> Request (upstream_resp 200) = layer_req
   \<and> CacheRespHandler (upstream_resp 200) broken_world = (upstream_resp 200, broken_world)
   \<and> Body (fst (CacheRespHandler (upstream_resp 200) broken_world)) = upstream_body
   \<and> map_of (fs (snd (CacheRespHandler (upstream_resp 200) broken_world))) ''/tmp/proxy/abc123'' = None
   \<and> cache_get (snd (CacheRespHandler (upstream_resp 200) broken_world)) ''abc123'' = AVAILABLE"
proof -
  have n: "''abc123'' \<noteq> ''''" by simp
  have o: "isl (os_Open (cachedir broken_world @ ''abc123'') broken_world)
           \<or> isl (os_Stat (cachedir broken_world @ ''abc123'') broken_world)"
    by (simp add: broken_world_facts)
  have r: "Request (upstream_resp 200) = layer_req" "Body (upstream_resp 200) = upstream_body"
    by (simp_all add: upstream_resp_def)
  from CacheReqHandler_unreadable_file [OF broken_world_facts(1) n broken_world_facts(2) o, of "[]"] r
  show ?thesis by (simp add: broken_world_facts)
qed

subsection \<open>The request hook on a layer that is in the store\<close>

lemma take_drop_chunk:
  "take n xs @ drop (min n (length xs)) xs = xs"
  by (cases "n \<le> length xs") (simp_all add: min_def)

lemma ReadAll_file:
  "map_of (fs w) (f_name h) = Some (File c) \<Longrightarrow> \<not> f_closed h \<Longrightarrow> 0 < n
   \<Longrightarrow> length c - f_off h < fuel
   \<Longrightarrow> \<exists>h'. ReadAll fuel n (NopCloser h) w = Some ((drop (f_off h) c, None), NopCloser h', w)"
proof (induction fuel arbitrary: h)
  case 0
  then show ?case by simp
next
  case (Suc fuel)
  show ?case
  proof (cases "length c \<le> f_off h")
    case True
    with Suc.prems show ?thesis by (simp add: os_Read_def node_at_map_of)
  next
    case False
    define m where "m = min n (length c - f_off h)"
    define h1 where "h1 = h\<lparr>f_off := f_off h + m\<rparr>"
    from False Suc.prems have m: "0 < m" "f_off h + m \<le> length c"
      by (simp_all add: m_def)
    have rd: "os_Read h n w = ((take n (drop (f_off h) c), None), h1)"
      using False Suc.prems by (simp add: os_Read_def node_at_map_of h1_def m_def)
    have "length c - f_off h1 < fuel"
      using m Suc.prems(4) by (simp add: h1_def)
    with Suc.IH [of h1] Suc.prems(1-3)
    obtain h' where
      ih: "ReadAll fuel n (NopCloser h1) w = Some ((drop (f_off h1) c, None), NopCloser h', w)"
      by (auto simp: h1_def)
    have len: "length (take n (drop (f_off h) c)) = m"
      by (simp add: m_def)
    have "take n (drop (f_off h) c) @ drop (f_off h1) c = drop (f_off h) c"
      using take_drop_chunk [of n "drop (f_off h) c"]
      by (simp add: h1_def m_def add.commute)
    moreover have "take m (drop (f_off h) c) = take n (drop (f_off h) c)"
      by (cases "n \<le> length c - f_off h") (simp_all add: m_def min_def)
    ultimately show ?thesis using rd ih len by simp
  qed
qed

text \<open>
  C2. The index says \<open>AVAILABLE\<close>, \<open>os.Open\<close> and \<open>os.Stat\<close> succeed on the file of the
  layer, and the file holds the bytes \<open>c\<close>. Then \<open>CacheReqHandler\<close> returns at once with a
  response of its own making, so no fetch takes place: status 200, the single header
  \<open>Content-Type: application/octet-stream\<close>, \<open>ContentLength\<close> the length of \<open>c\<close>, and a
  body that is the file opened at its start. Read to its end with any buffer that is not
  empty, the body gives exactly \<open>c\<close>.
\<close>

theorem CacheReqHandler_cache_hit:
  assumes "shouldBeCached (URL_Path req) w = k" and "k \<noteq> ''''"
    and "cache_get w k = AVAILABLE"
    and "\<not> isl (os_Open (cachedir w @ k) w)" and "\<not> isl (os_Stat (cachedir w @ k) w)"
    and "map_of (fs w) (cachedir w @ k) = Some (File c)"
  shows "CacheReqHandler others req w =
           Some ((req,
                  Some \<lparr>StatusCode = 200,
                        Header = [''Content-Type'' \<mapsto> [''application/octet-stream'']],
                        ContentLength = int (length c),
                        Body = NopCloser \<lparr>f_name = cachedir w @ k, f_off = 0, f_closed = False\<rparr>,
                        Request = req,
                        TransferEncoding = req_TransferEncoding req\<rparr>),
                 w)
         \<and> (\<forall>n fuel. 0 < n \<and> length c < fuel \<longrightarrow>
               (\<exists>h'. ReadAll fuel n (NopCloser \<lparr>f_name = cachedir w @ k, f_off = 0, f_closed = False\<rparr>) w
                       = Some ((c, None), NopCloser h', w)))"
proof -
  let ?p = "cachedir w @ k"
  let ?h = "\<lparr>f_name = ?p, f_off = 0, f_closed = False\<rparr>"
  from assms(3) have wt: "wait_for_download k others w = Some w"
    by (simp add: wait_for_download_ready status_distinct)
  from assms(4,6) have op: "os_Open ?p w = Inr ?h"
    by (simp add: os_Open_def node_at_map_of split: if_splits)
  from assms(5,6) have st: "os_Stat ?p w = Inr \<lparr>fi_size = int (length c), fi_isdir = False\<rparr>"
    by (simp add: os_Stat_def node_at_map_of node_info_def split: if_splits)
  from assms(1-3) wt op st have "CacheReqHandler others req w =
           Some ((req,
                  Some \<lparr>StatusCode = 200,
                        Header = [''Content-Type'' \<mapsto> [''application/octet-stream'']],
                        ContentLength = int (length c),
                        Body = NopCloser ?h,
                        Request = req,
                        TransferEncoding = req_TransferEncoding req\<rparr>),
                 w)"
    by (simp add: CacheReqHandler_def Header_Add_def)
  moreover have "\<exists>h'. ReadAll fuel n (NopCloser ?h) w = Some ((c, None), NopCloser h', w)"
    if "0 < n" "length c < fuel" for n fuel
    using ReadAll_file [of w ?h c n fuel] assms(6) that by simp
  ultimately show ?thesis by blast
qed

lemma cached_world_facts:
  "shouldBeCached (URL_Path layer_req) cached_world = ''abc123''"
  "cache_get cached_world ''abc123'' = AVAILABLE"
  "cachedir cached_world = ''/tmp/proxy/''"
  "map_of (fs cached_world) ''/tmp/proxy/abc123'' = Some (File [1, 2, 3])"
  "os_Open ''/tmp/proxy/abc123'' cached_world
     = Inr \<lparr>f_name = ''/tmp/proxy/abc123'', f_off = 0, f_closed = False\<rparr>"
  "os_Stat ''/tmp/proxy/abc123'' cached_world = Inr \<lparr>fi_size = 3, fi_isdir = False\<rparr>"
  by (simp_all add: layer_req_def shouldBeCached_layer_path cached_world_def fresh_world_def
        cache_get_def os_Open_def os_Stat_def node_at_def node_info_def no_faults_def)

theorem CacheReqHandler_cache_hit_witness:
  "cache_get cached_world ''abc123'' = AVAILABLE
   \<and> map_of (fs cached_world) ''/tmp/proxy/abc123'' = Some (File [1, 2, 3])
   \<and> CacheReqHandler [] layer_req cached_world =
       Some ((layer_req,
              Some \<lparr>StatusCode = 200,
                    Header = [''Content-Type'' \<mapsto> [''application/octet-stream'']],
                    ContentLength = 3,
                    Body = NopCloser \<lparr>f_name = ''/tmp/proxy/abc123'', f_off = 0, f_closed = False\<rparr>,
                    Request = layer_req,
                    TransferEncoding = []\<rparr>),
             cached_world)
   \<and> (\<exists>h'. ReadAll 4 2 (NopCloser \<lparr>f_name = ''/tmp/proxy/abc123'', f_off = 0, f_closed = False\<rparr>)
               cached_world = Some (([1, 2, 3], None), NopCloser h', cached_world))"
proof -
  have n: "''abc123'' \<noteq> ''''" by simp
  have o: "\<not> isl (os_Open (cachedir cached_world @ ''abc123'') cached_world)"
    and s: "\<not> isl (os_Stat (cachedir cached_world @ ''abc123'') cached_world)"
    and f: "map_of (fs cached_world) (cachedir cached_world @ ''abc123'') = Some (File [1, 2, 3])"
    by (simp_all add: cached_world_facts)
  have t: "req_TransferEncoding layer_req = []"
    by (simp add: layer_req_def)
  from CacheReqHandler_cache_hit [OF cached_world_facts(1) n cached_world_facts(2) o s f, of "[]"] t
  show ?thesis by (simp add: cached_world_facts)
qed

subsection \<open>Reading through the tee reader\<close>

lemma write_at_end:
  "write_at (length c) b c = c @ b"
  by (simp add: write_at_def)

lemma os_Write_at_end:
  assumes "\<not> f_closed h" and "map_of (fs w) (f_name h) = Some (File c)"
    and "f_off h = length c"
  shows "os_Write h b w =
           ((int (min (length b) (disk_free w)),
             if min (length b) (disk_free w) < length b then Some ENOSPC else None),
            h\<lparr>f_off := length c + min (length b) (disk_free w)\<rparr>,
            w\<lparr>fs := AList.update (f_name h) (File (c @ take (disk_free w) b)) (fs w),
              disk_free := disk_free w - min (length b) (disk_free w)\<rparr>)"
proof -
  have "take (min (length b) (disk_free w)) b = take (disk_free w) b"
    by (cases "length b \<le> disk_free w") (simp_all add: min_def)
  with assms show ?thesis
    by (simp add: os_Write_def Let_def write_at_end)
qed

text \<open>
  C4. Let the wrapped body's \<open>Read\<close> leave the buffer as \<open>p'\<close> and return \<open>nread\<close> and
  \<open>err\<close>. The tee reader's \<open>Read\<close> returns the same buffer, count and error, whatever the
  state of the file and of the disk, so a write that fails does not show. With a count of
  zero the file system is not touched. With a positive count, and the reader's handle open
  at the end of its file (where \<open>newCacheTeeReader\<close> puts it and where its own writes
  keep it), the file afterwards is what it was followed by the bytes read, \<open>p'[:nread]\<close>,
  as far as the disk took them: all of them when there is room.
\<close>

theorem Read_forwards_and_copies:
  assumes "Read_body (tee_body t) p w = ((p', nread, err), b', w1)"
  shows "fst (Read t p w) = (p', nread, err)
         \<and> (nread \<le> 0 \<longrightarrow> snd (snd (Read t p w)) = w1)
         \<and> (0 < nread \<and> \<not> f_closed (tee_f t)
              \<and> map_of (fs w1) (f_name (tee_f t)) = Some (File c)
              \<and> f_off (tee_f t) = length c
            \<longrightarrow> map_of (fs (snd (snd (Read t p w)))) (f_name (tee_f t))
                  = Some (File (c @ take (disk_free w1) (take (nat nread) p')))
                \<and> (nat nread \<le> disk_free w1
                    \<longrightarrow> map_of (fs (snd (snd (Read t p w)))) (f_name (tee_f t))
                          = Some (File (c @ take (nat nread) p'))))"
proof (cases t)
  case (CacheTeeReader shaname fname h b nbread nbwritten)
  with assms have rb: "Read_body b p w = ((p', nread, err), b', w1)" by simp
  have res: "fst (Read t p w) = (p', nread, err)"
    using rb CacheTeeReader by (simp split: prod.splits)
  have idle: "snd (snd (Read t p w)) = w1" if "nread \<le> 0"
    using rb CacheTeeReader that by simp
  have copy: "map_of (fs (snd (snd (Read t p w)))) (f_name h)
                = Some (File (c @ take (disk_free w1) (take (nat nread) p')))"
    if "0 < nread" "\<not> f_closed h" "map_of (fs w1) (f_name h) = Some (File c)"
       "f_off h = length c"
    using rb CacheTeeReader that
    by (simp add: os_Write_at_end [OF that(2,3,4)] update_conv')
  have full: "take (disk_free w1) (take (nat nread) p') = take (nat nread) p'"
    if "nat nread \<le> disk_free w1"
    using that by (simp add: min_def)
  from res idle copy full CacheTeeReader show ?thesis by simp
qed

lemma Read_layer_tee:
  "Read layer_tee [0, 0, 0, 0] created_world = (([1, 2, 3, 0], 3, None), half_tee, half_world)"
  by (simp add: layer_tee_def upstream_body_def created_world_def half_tee_def half_world_def
        os_Write_def write_at_def fetching_world_def fresh_world_def)

lemma Read_half_tee:
  "Read half_tee [0, 0, 0, 0] half_world = (([4, 5, 0, 0], 2, Some EOF), cut_tee, cut_world)"
  by (simp add: half_tee_def half_world_def cut_tee_def cut_world_def
        os_Write_def write_at_def fetching_world_def fresh_world_def)

theorem Read_forwards_and_copies_witness:
  "Read_body (tee_body half_tee) [0, 0, 0, 0] half_world
     = (([4, 5, 0, 0], 2, Some EOF), Upstream [], half_world)
   \<and> map_of (fs half_world) (f_name (tee_f half_tee)) = Some (File [1, 2, 3])
   \<and> f_off (tee_f half_tee) = 3 \<and> disk_free half_world = 1
   \<and> fst (Read half_tee [0, 0, 0, 0] half_world) = ([4, 5, 0, 0], 2, Some EOF)
   \<and> map_of (fs (snd (snd (Read half_tee [0, 0, 0, 0] half_world)))) (f_name (tee_f half_tee))
       = Some (File [1, 2, 3, 4])
   \<and> Read_body (tee_body layer_tee) [0, 0, 0, 0] created_world
       = (([1, 2, 3, 0], 3, None), Upstream [([4, 5], Some EOF)], created_world)
   \<and> fst (Read layer_tee [0, 0, 0, 0] created_world) = ([1, 2, 3, 0], 3, None)
   \<and> map_of (fs (snd (snd (Read layer_tee [0, 0, 0, 0] created_world)))) (f_name (tee_f layer_tee))
       = Some (File [1, 2, 3])
   \<and> Read_body (tee_body cut_tee) [0, 0, 0, 0] cut_world
       = (([0, 0, 0, 0], 0, Some EOF), Upstream [], cut_world)
   \<and> fst (Read cut_tee [0, 0, 0, 0] cut_world) = ([0, 0, 0, 0], 0, Some EOF)
   \<and> snd (snd (Read cut_tee [0, 0, 0, 0] cut_world)) = cut_world"
proof -
  have rb: "Read_body (tee_body half_tee) [0, 0, 0, 0] half_world
              = (([4, 5, 0, 0], 2, Some EOF), Upstream [], half_world)"
    by (simp add: half_tee_def)
  have st: "\<not> f_closed (tee_f half_tee)"
    "map_of (fs half_world) (f_name (tee_f half_tee)) = Some (File [1, 2, 3])"
    "f_off (tee_f half_tee) = 3" "disk_free half_world = 1"
    by (simp_all add: half_tee_def half_world_def fetching_world_def fresh_world_def)
  have rb': "Read_body (tee_body layer_tee) [0, 0, 0, 0] created_world
              = (([1, 2, 3, 0], 3, None), Upstream [([4, 5], Some EOF)], created_world)"
    by (simp add: layer_tee_def upstream_body_def)
  have st': "\<not> f_closed (tee_f layer_tee)"
    "map_of (fs created_world) (f_name (tee_f layer_tee)) = Some (File [])"
    "f_off (tee_f layer_tee) = 0" "disk_free created_world = 4"
    by (simp_all add: layer_tee_def created_world_def fetching_world_def fresh_world_def)
  have rb'': "Read_body (tee_body cut_tee) [0, 0, 0, 0] cut_world
              = (([0, 0, 0, 0], 0, Some EOF), Upstream [], cut_world)"
    by (simp add: cut_tee_def)
  from Read_forwards_and_copies [OF rb, of "[1, 2, 3]"] rb st
  have cut: "fst (Read half_tee [0, 0, 0, 0] half_world) = ([4, 5, 0, 0], 2, Some EOF)
     \<and> map_of (fs (snd (snd (Read half_tee [0, 0, 0, 0] half_world)))) (f_name (tee_f half_tee))
         = Some (File [1, 2, 3, 4])"
    by simp
  from Read_forwards_and_copies [OF rb', of "[]"] st'
  have full: "fst (Read layer_tee [0, 0, 0, 0] created_world) = ([1, 2, 3, 0], 3, None)
     \<and> map_of (fs (snd (snd (Read layer_tee [0, 0, 0, 0] created_world)))) (f_name (tee_f layer_tee))
         = Some (File [1, 2, 3])"
    by simp
  from Read_forwards_and_copies [OF rb'', of "[]"]
  have idle: "fst (Read cut_tee [0, 0, 0, 0] cut_world) = ([0, 0, 0, 0], 0, Some EOF)
     \<and> snd (snd (Read cut_tee [0, 0, 0, 0] cut_world)) = cut_world"
    by simp
  from rb rb' rb'' st cut full idle show ?thesis by simp
qed

text \<open>The condition of C4 on the handle is the one the reader is in from its creation on,
  as long as nothing else writes the file: \<open>newCacheTeeReader\<close> establishes it and a read
  from a body that is not itself a tee reader keeps it, also when the write is cut short.\<close>

lemma newCacheTeeReader_at_end:
  assumes "newCacheTeeReader k b w = Inr (t, w')"
  shows "at_end w' (tee_f t)"
  using assms
  by (auto simp: newCacheTeeReader_def os_Create_def at_end_def update_conv'
           split: if_splits sum.splits)

lemma Read_keeps_at_end:
  assumes "at_end w1 (tee_f t)" and "Read_body (tee_body t) p w = (r, b', w1)"
  shows "at_end (snd (snd (Read t p w))) (tee_f (fst (snd (Read t p w))))"
proof (cases t)
  case (CacheTeeReader shaname fname h b nbread nbwritten)
  obtain p' nread err where r: "r = (p', nread, err)" by (cases r)
  from assms(1) CacheTeeReader obtain c where
    h: "\<not> f_closed h" "map_of (fs w1) (f_name h) = Some (File c)" "f_off h = length c"
    by (auto simp: at_end_def split: option.splits node.splits)
  show ?thesis
  proof (cases "0 < nread")
    case True
    with assms(2) CacheTeeReader r h show ?thesis
      by (simp add: os_Write_at_end [OF h] at_end_def update_conv' min.commute)
  next
    case False
    with assms CacheTeeReader r show ?thesis by simp
  qed
qed

subsection \<open>The index only moves forward\<close>

lemma forward_refl: "forward a a"
  by (simp add: forward_def)

lemma forward_trans: "forward a b \<Longrightarrow> forward b c \<Longrightarrow> forward a c"
  by (auto simp: forward_def status_distinct)

lemma forward_known: "known a \<Longrightarrow> forward a b \<Longrightarrow> known b"
  by (auto simp: forward_def known_def)

lemma forward_to_AVAILABLE: "known a \<Longrightarrow> forward a AVAILABLE"
  by (auto simp: forward_def known_def)

lemma forward_ends:
  "forward a b \<Longrightarrow> (b = EMPTY \<longrightarrow> a = EMPTY) \<and> (a = AVAILABLE \<longrightarrow> b = AVAILABLE)"
  by (auto simp: forward_def status_distinct)

lemma wait_for_download_exit:
  "wait_for_download s others w = Some w1 \<Longrightarrow> cache_get w1 s \<noteq> IN_PROGRESS"
  by (induction others arbitrary: w) (auto split: if_splits)

lemma wait_for_download_forward:
  assumes "\<forall>other \<in> set others. \<forall>v. known (cache_get v k) \<longrightarrow> forward (cache_get v k) (cache_get (other v) k)"
    and "known (cache_get w k)" and "wait_for_download s others w = Some w1"
  shows "forward (cache_get w k) (cache_get w1 k)"
  using assms
proof (induction others arbitrary: w)
  case Nil
  then show ?case by (simp add: forward_refl split: if_splits)
next
  case (Cons other others)
  show ?case
  proof (cases "cache_get w s = IN_PROGRESS")
    case True
    from Cons.prems(1,2) have step: "forward (cache_get w k) (cache_get (other w) k)"
      by simp
    with Cons.prems(2) have "known (cache_get (other w) k)"
      by (rule forward_known)
    moreover from Cons.prems(3) True have "wait_for_download s others (other w) = Some w1"
      by simp
    ultimately have "forward (cache_get (other w) k) (cache_get w1 k)"
      using Cons.IH [of "other w"] Cons.prems(1) by simp
    with step show ?thesis by (rule forward_trans)
  next
    case False
    with Cons.prems(3) show ?thesis by (simp add: forward_refl)
  qed
qed

lemma CacheReqHandler_forward:
  assumes "\<forall>other \<in> set others. \<forall>v. known (cache_get v k) \<longrightarrow> forward (cache_get v k) (cache_get (other v) k)"
    and "known (cache_get w k)" and "CacheReqHandler others req w = Some (r, w')"
  shows "forward (cache_get w k) (cache_get w' k)"
proof (cases "shouldBeCached (URL_Path req) w = ''''")
  case True
  with assms(3) show ?thesis by (simp add: CacheReqHandler_def forward_refl)
next
  case False
  define s where "s = shouldBeCached (URL_Path req) w"
  from assms(3) False obtain w1 where
    wt: "wait_for_download s others w = Some w1"
    by (auto simp: CacheReqHandler_def Let_def s_def split: option.splits)
  from assms(1,2) wt have f1: "forward (cache_get w k) (cache_get w1 k)"
    by (rule wait_for_download_forward)
  with assms(2) have k1: "known (cache_get w1 k)" by (rule forward_known)
  from wt have nip: "cache_get w1 s \<noteq> IN_PROGRESS" by (rule wait_for_download_exit)
  have "forward (cache_get w1 k) (cache_get w' k)"
  proof (cases "cache_get w1 s = AVAILABLE")
    case True
    with assms(3) False wt have "w' = w1"
      by (auto simp: CacheReqHandler_def Let_def s_def split: sum.splits)
    then show ?thesis by (simp add: forward_refl)
  next
    case na: False
    with assms(3) False wt have w': "w' = cache_set s IN_PROGRESS w1"
      by (auto simp: CacheReqHandler_def Let_def s_def)
    show ?thesis
    proof (cases "k = s")
      case True
      with k1 nip na have "cache_get w1 k = EMPTY" by (simp add: known_def)
      with w' True show ?thesis by (simp add: cache_get_cache_set forward_def)
    next
      case False
      with w' show ?thesis by (simp add: cache_get_cache_set forward_refl)
    qed
  qed
  with f1 show ?thesis by (rule forward_trans)
qed

lemma CacheRespHandler_cache:
  "cache (snd (CacheRespHandler resp w)) = cache w"
  by (auto simp: CacheRespHandler_def Let_def newCacheTeeReader_def os_Create_def
           split: sum.splits if_splits)

lemma fold_cache_set:
  "cache_get (fold (\<lambda>file. cache_set file v) files w) k
     = (if k \<in> set files then v else cache_get w k)"
  by (induction files arbitrary: w) (auto simp: cache_get_cache_set)

lemma cacheInit_Inr:
  assumes "cacheInit w = Inr w'"
  shows "\<exists>w1 files. w' = fold (\<lambda>file. cache_set file AVAILABLE) files (w1\<lparr>cache := Map.empty\<rparr>)"
  using assms
  by (auto simp: cacheInit_def Let_def split: sum.splits if_splits)

lemma cacheInit_cache_get:
  assumes "cacheInit w = Inr w'"
  shows "cache_get w' k = EMPTY \<or> cache_get w' k = AVAILABLE"
proof -
  from cacheInit_Inr [OF assms] obtain w1 files where
    "w' = fold (\<lambda>file. cache_set file AVAILABLE) files (w1\<lparr>cache := Map.empty\<rparr>)"
    by blast
  moreover have "cache_get (w1\<lparr>cache := Map.empty\<rparr>) k = EMPTY"
    by (simp add: cache_get_def)
  ultimately show ?thesis by (simp add: fold_cache_set)
qed

text \<open>
  C3. Take a key whose entry holds one of the three constants. Each operation leaves the
  entry where it was or moves it to a later state in the order \<open>EMPTY\<close>, \<open>IN_PROGRESS\<close>,
  \<open>AVAILABLE\<close>:
  \<^item> \<open>CacheReqHandler\<close>, for any request, when what the other goroutines do while it waits
    moves the entry forward only;
  \<^item> \<open>CacheRespHandler\<close>, for any response;
  \<^item> \<open>Close\<close>, for any tee reader;
  \<^item> \<open>cacheInit\<close>, which runs once when the process starts, on the index of a process
    that has just started (the map without entries).
  A forward move never ends in \<open>EMPTY\<close> unless it starts there, and never leaves
  \<open>AVAILABLE\<close>.
\<close>

theorem index_moves_forward:
  assumes "known (cache_get w k)"
  shows "(\<forall>others req r w'.
            (\<forall>other \<in> set others. \<forall>v. known (cache_get v k)
                \<longrightarrow> forward (cache_get v k) (cache_get (other v) k))
            \<longrightarrow> CacheReqHandler others req w = Some (r, w')
            \<longrightarrow> forward (cache_get w k) (cache_get w' k))
         \<and> (\<forall>resp. forward (cache_get w k) (cache_get (snd (CacheRespHandler resp w)) k))
         \<and> (\<forall>t. forward (cache_get w k) (cache_get (snd (snd (Close t w))) k))
         \<and> (\<forall>w'. cache w = Map.empty \<longrightarrow> cacheInit w = Inr w'
                \<longrightarrow> forward (cache_get w k) (cache_get w' k))
         \<and> (\<forall>a b. forward a b \<longrightarrow> (b = EMPTY \<longrightarrow> a = EMPTY) \<and> (a = AVAILABLE \<longrightarrow> b = AVAILABLE))"
proof -
  have req: "forward (cache_get w k) (cache_get w' k)"
    if "\<forall>other \<in> set others. \<forall>v. known (cache_get v k)
          \<longrightarrow> forward (cache_get v k) (cache_get (other v) k)"
      and "CacheReqHandler others req w = Some (r, w')" for others req r w'
    using that(1) assms that(2) by (rule CacheReqHandler_forward)
  have resp: "forward (cache_get w k) (cache_get (snd (CacheRespHandler resp w)) k)" for resp
    by (simp add: cache_get_def CacheRespHandler_cache forward_refl)
  have close: "forward (cache_get w k) (cache_get (snd (snd (Close t w))) k)" for t
    using assms
    by (auto simp: Close_def cache_get_cache_set forward_refl split: prod.splits
             intro: forward_to_AVAILABLE)
  have init: "forward (cache_get w k) (cache_get w' k)"
    if "cache w = Map.empty" "cacheInit w = Inr w'" for w'
  proof -
    from that(1) have "cache_get w k = EMPTY" by (simp add: cache_get_def)
    with cacheInit_cache_get [OF that(2), of k] show ?thesis
      by (auto simp: forward_def)
  qed
  from req resp close init forward_ends show ?thesis by blast
qed
lemma created_world_facts:
  "shouldBeCached (URL_Path layer_req) created_world = ''abc123''"
  "cache_get created_world ''abc123'' = IN_PROGRESS"
  "cache created_world = [''abc123'' \<mapsto> IN_PROGRESS]"
  by (simp_all add: layer_req_def shouldBeCached_layer_path created_world_def fetching_world_def
        fresh_world_def cache_get_def)

lemma CacheReqHandler_after_close:
  "CacheReqHandler [other_closes] layer_req created_world =
     Some ((layer_req,
            Some \<lparr>StatusCode = 200,
                  Header = [''Content-Type'' \<mapsto> [''application/octet-stream'']],
                  ContentLength = 0,
                  Body = NopCloser \<lparr>f_name = ''/tmp/proxy/abc123'', f_off = 0, f_closed = False\<rparr>,
                  Request = layer_req,
                  TransferEncoding = []\<rparr>),
           cache_set ''abc123'' AVAILABLE created_world)"
proof -
  have w: "wait_for_download ''abc123'' [other_closes] created_world
             = Some (cache_set ''abc123'' AVAILABLE created_world)"
    by (simp add: created_world_facts other_closes_def Close_def layer_tee_def
          cache_get_cache_set status_distinct split: prod.splits)
  have o: "os_Open (cachedir (cache_set ''abc123'' AVAILABLE created_world) @ ''abc123'')
             (cache_set ''abc123'' AVAILABLE created_world)
           = Inr \<lparr>f_name = ''/tmp/proxy/abc123'', f_off = 0, f_closed = False\<rparr>"
    and s: "os_Stat (cachedir (cache_set ''abc123'' AVAILABLE created_world) @ ''abc123'')
             (cache_set ''abc123'' AVAILABLE created_world)
           = Inr \<lparr>fi_size = 0, fi_isdir = False\<rparr>"
    by (simp_all add: os_Open_def os_Stat_def node_at_def node_info_def cache_set_def
          created_world_def fetching_world_def fresh_world_def no_faults_def)
  have k: "shouldBeCached (URL_Path layer_req) created_world = ''abc123''"
    by (rule created_world_facts)
  show ?thesis
    unfolding CacheReqHandler_def k Let_def w
    by (simp add: o s cache_get_cache_set Header_Add_def layer_req_def)
qed

lemma cacheInit_restart_world:
  "cacheInit restart_world = Inr cached_world"
  by (simp add: cacheInit_def restart_world_def cached_world_def fresh_world_def HasSuffix_def
        os_Stat_def os_ReadDir_def node_at_def node_info_def no_faults_def entry_of_def
        unslash_def List.map_filter_simps cache_set_def)

theorem index_moves_forward_witness:
  "known (cache_get created_world ''abc123'')
   \<and> cache_get created_world ''abc123'' = IN_PROGRESS
   \<and> forward IN_PROGRESS (cache_get (cache_set ''abc123'' AVAILABLE created_world) ''abc123'')
   \<and> cache_get (cache_set ''abc123'' AVAILABLE created_world) ''abc123'' = AVAILABLE
   \<and> forward IN_PROGRESS (cache_get (snd (CacheRespHandler (upstream_resp 200) created_world)) ''abc123'')
   \<and> forward IN_PROGRESS (cache_get (snd (snd (Close layer_tee created_world))) ''abc123'')
   \<and> cache restart_world = Map.empty
   \<and> cacheInit restart_world = Inr cached_world
   \<and> forward (cache_get restart_world ''abc123'') (cache_get cached_world ''abc123'')
   \<and> cache_get cached_world ''abc123'' = AVAILABLE"
proof -
  have kn: "known (cache_get created_world ''abc123'')"
    by (simp add: created_world_facts known_def)
  have rely: "\<forall>other \<in> set [other_closes]. \<forall>v. known (cache_get v ''abc123'')
                \<longrightarrow> forward (cache_get v ''abc123'') (cache_get (other v) ''abc123'')"
    by (simp add: other_closes_def Close_def layer_tee_def cache_get_cache_set
          forward_to_AVAILABLE split: prod.splits)
  note T = index_moves_forward [OF kn]
  have a: "forward (cache_get created_world ''abc123'')
             (cache_get (cache_set ''abc123'' AVAILABLE created_world) ''abc123'')"
    by (rule T [THEN conjunct1, THEN spec, THEN spec, THEN spec, THEN spec, THEN mp, THEN mp,
          OF rely CacheReqHandler_after_close])
  have b: "forward (cache_get created_world ''abc123'')
             (cache_get (snd (CacheRespHandler (upstream_resp 200) created_world)) ''abc123'')"
    by (rule T [THEN conjunct2, THEN conjunct1, rule_format])
  have c: "forward (cache_get created_world ''abc123'')
             (cache_get (snd (snd (Close layer_tee created_world))) ''abc123'')"
    by (rule T [THEN conjunct2, THEN conjunct2, THEN conjunct1, rule_format])
  have e: "cache restart_world = Map.empty"
    by (simp add: restart_world_def)
  then have kn': "known (cache_get restart_world ''abc123'')"
    by (simp add: cache_get_def known_def)
  have d: "forward (cache_get restart_world ''abc123'') (cache_get cached_world ''abc123'')"
    by (rule index_moves_forward [OF kn', THEN conjunct2, THEN conjunct2, THEN conjunct2,
          THEN conjunct1, rule_format, OF e cacheInit_restart_world])
  from kn a b c d e show ?thesis
    by (simp add: created_world_facts cached_world_facts cacheInit_restart_world
          cache_get_cache_set)
qed

subsection \<open>The scan at start-up\<close>

lemma HasSuffix_slash:
  "HasSuffix s ''/'' \<longleftrightarrow> s \<noteq> [] \<and> last s = CHR ''/''"
proof (cases s rule: rev_cases)
  case Nil
  then show ?thesis by (simp add: HasSuffix_def)
next
  case (snoc xs x)
  then show ?thesis by (auto simp: HasSuffix_def)
qed

lemma unslash_slash:
  "p \<noteq> [] \<Longrightarrow> last p = CHR ''/'' \<Longrightarrow> unslash p @ ''/'' = p"
  by (cases p rule: rev_cases) (simp_all add: unslash_def)

lemma unslash_name:
  "CHR ''/'' \<notin> set n \<Longrightarrow> unslash n = n"
  by (cases n rule: rev_cases) (auto simp: unslash_def)

lemma unslash_snoc:
  "unslash (xs @ ''/'') = xs"
  by (simp add: unslash_def)

lemma dirname_entry:
  assumes "d \<noteq> []" and "last d = CHR ''/''" and "CHR ''/'' \<notin> set n"
  shows "dirname (d @ n) = d"
proof -
  from assms(1,2) obtain xs where d: "d = xs @ ''/''"
    by (cases d rule: rev_cases) auto
  have "dropWhile (\<lambda>c. c \<noteq> CHR ''/'') (rev n @ rev d) = dropWhile (\<lambda>c. c \<noteq> CHR ''/'') (rev d)"
    by (rule dropWhile_append2) (use assms(3) in auto)
  with d show ?thesis by (simp add: dirname_def)
qed

lemma parent_entry:
  assumes "d \<noteq> []" and "last d = CHR ''/''" and "n \<noteq> []" and "CHR ''/'' \<notin> set n"
  shows "parent (d @ n) = d" and "parent (d @ n @ ''/'') = d"
proof -
  from assms(3,4) have "last (d @ n) \<noteq> CHR ''/''"
    by (cases n rule: rev_cases) auto
  then have "unslash (d @ n) = d @ n"
    by (simp add: unslash_def)
  with assms show "parent (d @ n) = d"
    by (simp add: parent_def dirname_entry)
  have "unslash (d @ n @ ''/'') = d @ n"
    using unslash_snoc [of "d @ n"] by simp
  with assms show "parent (d @ n @ ''/'') = d"
    by (simp add: parent_def dirname_entry)
qed

lemma entry_of_Some:
  "entry_of d p = Some n \<longleftrightarrow> (p = d @ n \<or> p = d @ n @ ''/'') \<and> n \<noteq> [] \<and> CHR ''/'' \<notin> set n"
proof
  assume "entry_of d p = Some n"
  then have e: "take (length d) p = d" "unslash (drop (length d) p) = n" "n \<noteq> []"
    "CHR ''/'' \<notin> set n"
    by (auto simp: entry_of_def split: if_splits)
  have p: "p = take (length d) p @ drop (length d) p" by simp
  from e(2) have "drop (length d) p = n \<or> drop (length d) p = n @ ''/''"
    by (cases "drop (length d) p" rule: rev_cases) (auto simp: unslash_def split: if_splits)
  with p e show "(p = d @ n \<or> p = d @ n @ ''/'') \<and> n \<noteq> [] \<and> CHR ''/'' \<notin> set n"
    by metis
next
  assume a: "(p = d @ n \<or> p = d @ n @ ''/'') \<and> n \<noteq> [] \<and> CHR ''/'' \<notin> set n"
  then consider "p = d @ n" | "p = d @ n @ ''/''" by blast
  then show "entry_of d p = Some n"
  proof cases
    case 1
    with a show ?thesis by (simp add: entry_of_def unslash_name)
  next
    case 2
    with a show ?thesis by (simp add: entry_of_def unslash_snoc)
  qed
qed

lemma set_map_filter:
  "set (List.map_filter f xs) = {y. \<exists>x \<in> set xs. f x = Some y}"
  by (induction xs) (auto simp: List.map_filter_simps split: option.splits)

lemma entries_of_keys:
  "{n. \<exists>p \<in> K. entry_of d p = Some n}
     = {n. n \<noteq> [] \<and> CHR ''/'' \<notin> set n \<and> (d @ n \<in> K \<or> d @ n @ ''/'' \<in> K)}"
  by (auto simp: entry_of_Some)

lemma set_entries:
  "set (List.map_filter (entry_of d) (map fst F))
     = {n. n \<noteq> [] \<and> CHR ''/'' \<notin> set n
           \<and> (map_of F (d @ n) \<noteq> None \<or> map_of F (d @ n @ ''/'') \<noteq> None)}"
proof -
  have "set (List.map_filter (entry_of d) (map fst F))
          = {n. \<exists>p \<in> fst ` set F. entry_of d p = Some n}"
    by (simp add: set_map_filter)
  also have "\<dots> = {n. n \<noteq> [] \<and> CHR ''/'' \<notin> set n
                     \<and> (d @ n \<in> fst ` set F \<or> d @ n @ ''/'' \<in> fst ` set F)}"
    by (rule entries_of_keys)
  also have "\<dots> = {n. n \<noteq> [] \<and> CHR ''/'' \<notin> set n
                     \<and> (map_of F (d @ n) \<noteq> None \<or> map_of F (d @ n @ ''/'') \<noteq> None)}"
    by (simp add: map_of_eq_None_iff)
  finally show ?thesis .
qed

lemma no_entries_without_dir:
  assumes "fs_wf F" and "d \<noteq> []" and "last d = CHR ''/''" and "map_of F d \<noteq> Some Dir"
  shows "List.map_filter (entry_of d) (map fst F) = []"
proof -
  have "set (List.map_filter (entry_of d) (map fst F)) = {}"
  proof (rule ccontr)
    assume "set (List.map_filter (entry_of d) (map fst F)) \<noteq> {}"
    then obtain n p where n: "n \<noteq> []" "CHR ''/'' \<notin> set n" "p \<in> fst ` set F"
      "p = d @ n \<or> p = d @ n @ ''/''"
      by (auto simp: set_entries map_of_eq_None_iff)
    from assms(2,3) n(1,2,4) have "parent p = d"
      by (auto simp: parent_entry)
    moreover from assms(1) n(3) have "parent p = [] \<or> map_of F (parent p) = Some Dir"
      by (auto simp: fs_wf_def)
    ultimately show False using assms(2,4) by simp
  qed
  then show ?thesis by simp
qed

lemma fold_cache_set_cache:
  "cache (fold (\<lambda>file. cache_set file v) files w)
     = (\<lambda>n. if n \<in> set files then Some v else cache w n)"
  by (induction files arbitrary: w) (auto simp: cache_set_def fun_eq_iff)

lemma fold_cache_set_fs:
  "fs (fold (\<lambda>file. cache_set file v) files w) = fs w"
  by (induction files arbitrary: w) (auto simp: cache_set_def)

lemma update_fresh_key:
  "map_of al k = None \<Longrightarrow> AList.update k v al = al @ [(k, v)]"
  by (induction al) (auto split: if_splits)

lemma map_filter_append:
  "List.map_filter f (xs @ ys) = List.map_filter f xs @ List.map_filter f ys"
  by (simp add: List.map_filter_def)

lemma entry_of_self:
  "entry_of d d = None"
  by (simp add: entry_of_def unslash_def)

lemma cacheInit_present:
  assumes "d = (if HasSuffix (cachedir w) ''/'' then cachedir w else cachedir w @ ''/'')"
    and "map_of (fs w) d = Some Dir" and "\<not> faulty w SysStat d"
  shows "cacheInit w =
           (if faulty w SysReadDir d then Inl EACCES
            else Inr (fold (\<lambda>file. cache_set file AVAILABLE)
                       (List.map_filter (entry_of d) (map fst (fs w)))
                       (w\<lparr>cachedir := d, cache := Map.empty\<rparr>)))"
  using assms
  by (auto simp: cacheInit_def Let_def os_Stat_def os_ReadDir_def node_at_map_of node_info_def)

lemma cacheInit_mkdir:
  assumes "d = (if HasSuffix (cachedir w) ''/'' then cachedir w else cachedir w @ ''/'')"
    and "map_of (fs w) d \<noteq> Some Dir \<or> faulty w SysStat d"
  shows "cacheInit w =
           (if isl (os_Mkdir d w) then Inl (projl (os_Mkdir d w))
            else if faulty w SysReadDir d then Inl EACCES
            else Inr (fold (\<lambda>file. cache_set file AVAILABLE)
                       (List.map_filter (entry_of d) (map fst (fs w) @ [d]))
                       (w\<lparr>fs := fs w @ [(d, Dir)], cachedir := d, cache := Map.empty\<rparr>)))"
proof -
  define w1 where "w1 = w\<lparr>cachedir := d\<rparr>"
  from assms(1) have d: "d \<noteq> []" "last d = CHR ''/''"
    by (auto simp: HasSuffix_slash)
  have sl: "(if \<not> HasSuffix (cachedir w) ''/'' then w\<lparr>cachedir := cachedir w @ ''/''\<rparr> else w) = w1"
    using assms(1) by (simp add: w1_def)
  have w1: "cachedir w1 = d" "fs w1 = fs w" "faulty w1 = faulty w"
    by (simp_all add: w1_def)
  have st: "(case os_Stat d w1 of
               Inl err \<Rightarrow> os_Mkdir d w1
             | Inr stat \<Rightarrow> if \<not> fi_isdir stat then os_Mkdir d w1 else Inr w1) = os_Mkdir d w1"
    using assms(2)
    by (auto simp: os_Stat_def node_at_slash [OF d] node_info_def w1
             split: option.splits node.splits)
  have ci: "cacheInit w =
              (case os_Mkdir d w1 of
                 Inl err \<Rightarrow> Inl err
               | Inr w2 \<Rightarrow>
                   (case os_ReadDir (cachedir (w2\<lparr>cache := Map.empty\<rparr>)) (w2\<lparr>cache := Map.empty\<rparr>) of
                      Inl err \<Rightarrow> Inl err
                    | Inr files \<Rightarrow>
                        Inr (fold (\<lambda>file. cache_set file AVAILABLE) files (w2\<lparr>cache := Map.empty\<rparr>))))"
    unfolding cacheInit_def Let_def sl w1(1) st ..
  have mk1: "os_Mkdir d w1 = (case os_Mkdir d w of Inl e \<Rightarrow> Inl e | Inr w2 \<Rightarrow> Inr (w2\<lparr>cachedir := d\<rparr>))"
    by (simp add: os_Mkdir_def w1_def)
  show ?thesis
  proof (cases "isl (os_Mkdir d w)")
    case True
    then obtain e where "os_Mkdir d w = Inl e" by (auto simp: isl_def)
    then show ?thesis by (simp add: ci mk1)
  next
    case False
    then have none: "map_of (fs w) d = None"
      by (auto simp: os_Mkdir_def unslash_slash [OF d] split: if_splits)
    with False have mk: "os_Mkdir d w = Inr (w\<lparr>fs := fs w @ [(d, Dir)]\<rparr>)"
      by (auto simp: os_Mkdir_def unslash_slash [OF d] update_fresh_key split: if_splits)
    have rd: "os_ReadDir d (w\<lparr>fs := fs w @ [(d, Dir)], cachedir := d, cache := Map.empty\<rparr>) =
                (if faulty w SysReadDir d then Inl EACCES
                 else Inr (List.map_filter (entry_of d) (map fst (fs w) @ [d])))"
      using none by (simp add: os_ReadDir_def map_add_def)
    from False show ?thesis
      by (simp add: ci mk1 mk rd)
  qed
qed
text \<open>
  C9. Let \<open>d\<close> be the directory of the store, that is \<open>cachedir\<close> with a slash at the end.
  \<^item> If \<open>d\<close> is not a directory when \<open>cacheInit\<close> starts and \<open>cacheInit\<close> returns, then
    \<open>d\<close> is a directory afterwards and the index has no entries (in a file system where
    every node lies in an existing directory).
  \<^item> If \<open>d\<close> is a directory and \<open>cacheInit\<close> returns, the file system is untouched and the
    index maps exactly the names of the entries of \<open>d\<close> to \<open>AVAILABLE\<close>.
  \<^item> If \<open>d\<close> is not a directory and \<open>os.Mkdir\<close> fails, or if \<open>ioutil.ReadDir\<close> fails,
    \<open>cacheInit\<close> ends the process.
  \<^item> If \<open>os.Stat\<close> and \<open>ioutil.ReadDir\<close> do not fail and \<open>d\<close> is a directory or can be
    made, \<open>cacheInit\<close> returns.
\<close>

theorem cacheInit_scan:
  assumes "d = (if HasSuffix (cachedir w) ''/'' then cachedir w else cachedir w @ ''/'')"
  shows "(\<forall>w'. cacheInit w = Inr w' \<and> map_of (fs w) d \<noteq> Some Dir \<and> fs_wf (fs w)
            \<longrightarrow> map_of (fs w') d = Some Dir \<and> cache w' = Map.empty)
         \<and> (\<forall>w'. cacheInit w = Inr w' \<and> map_of (fs w) d = Some Dir
            \<longrightarrow> fs w' = fs w
                \<and> cache w' =
                    (\<lambda>n. if n \<noteq> [] \<and> CHR ''/'' \<notin> set n
                            \<and> (map_of (fs w) (d @ n) \<noteq> None \<or> map_of (fs w) (d @ n @ ''/'') \<noteq> None)
                         then Some AVAILABLE else None))
         \<and> (map_of (fs w) d \<noteq> Some Dir \<and> isl (os_Mkdir d w) \<longrightarrow> isl (cacheInit w))
         \<and> (faulty w SysReadDir d \<longrightarrow> isl (cacheInit w))
         \<and> (\<not> faulty w SysStat d \<and> \<not> faulty w SysReadDir d
              \<and> (map_of (fs w) d = Some Dir \<or> \<not> isl (os_Mkdir d w))
            \<longrightarrow> \<not> isl (cacheInit w))"
proof -
  note mk = cacheInit_mkdir [OF assms]
  note pr = cacheInit_present [OF assms]
  from assms have d: "d \<noteq> []" "last d = CHR ''/''"
    by (auto simp: HasSuffix_slash)
  have exists: "isl (os_Mkdir d w)" if "map_of (fs w) d = Some Dir"
    using that by (simp add: os_Mkdir_def unslash_slash [OF d])
  have absent: "map_of (fs w') d = Some Dir \<and> cache w' = Map.empty"
    if "cacheInit w = Inr w'" "map_of (fs w) d \<noteq> Some Dir" "fs_wf (fs w)" for w'
  proof -
    have none: "List.map_filter (entry_of d) (map fst (fs w) @ [d]) = []"
      using no_entries_without_dir [OF that(3) d that(2)]
      by (simp add: map_filter_append List.map_filter_simps entry_of_self)
    from that(1,2) mk
    have made: "\<not> isl (os_Mkdir d w)"
      and w': "w' = w\<lparr>fs := fs w @ [(d, Dir)], cachedir := d, cache := Map.empty\<rparr>"
      by (auto simp: none split: if_splits)
    from made have "map_of (fs w) d = None"
      by (auto simp: os_Mkdir_def unslash_slash [OF d] split: if_splits)
    with w' show ?thesis by (simp add: map_add_def)
  qed
  have present: "fs w' = fs w
      \<and> cache w' =
          (\<lambda>n. if n \<noteq> [] \<and> CHR ''/'' \<notin> set n
                  \<and> (map_of (fs w) (d @ n) \<noteq> None \<or> map_of (fs w) (d @ n @ ''/'') \<noteq> None)
               then Some AVAILABLE else None)"
    if "cacheInit w = Inr w'" "map_of (fs w) d = Some Dir" for w'
  proof (cases "faulty w SysStat d")
    case True
    with that mk exists show ?thesis by simp
  next
    case False
    with that pr have
      "w' = fold (\<lambda>file. cache_set file AVAILABLE)
              (List.map_filter (entry_of d) (map fst (fs w))) (w\<lparr>cachedir := d, cache := Map.empty\<rparr>)"
      by (auto split: if_splits)
    then show ?thesis
      by (simp add: fold_cache_set_fs fold_cache_set_cache set_entries cong: if_cong)
  qed
  have nomkdir: "isl (cacheInit w)" if "map_of (fs w) d \<noteq> Some Dir" "isl (os_Mkdir d w)"
    using that mk by simp
  have noreaddir: "isl (cacheInit w)" if "faulty w SysReadDir d"
  proof (cases "map_of (fs w) d = Some Dir \<and> \<not> faulty w SysStat d")
    case True
    with that pr show ?thesis by simp
  next
    case False
    with that mk show ?thesis by auto
  qed
  have returns: "\<not> isl (cacheInit w)"
    if "\<not> faulty w SysStat d" "\<not> faulty w SysReadDir d"
       "map_of (fs w) d = Some Dir \<or> \<not> isl (os_Mkdir d w)"
  proof (cases "map_of (fs w) d = Some Dir")
    case True
    with that pr show ?thesis by simp
  next
    case False
    with that mk show ?thesis by auto
  qed
  from absent present nomkdir noreaddir returns show ?thesis by blast
qed

lemma cacheInit_cold_world:
  "cacheInit cold_world = Inr fresh_world"
  by (simp add: cacheInit_def cold_world_def fresh_world_def HasSuffix_def
        os_Stat_def os_Mkdir_def os_ReadDir_def node_at_def parent_def unslash_def dirname_def
        no_faults_def entry_of_def List.map_filter_simps)

theorem cacheInit_scan_witness:
  "cacheInit cold_world = Inr fresh_world
   \<and> map_of (fs cold_world) ''/tmp/proxy/'' = None \<and> fs_wf (fs cold_world)
   \<and> map_of (fs fresh_world) ''/tmp/proxy/'' = Some Dir \<and> cache fresh_world = Map.empty
   \<and> cacheInit restart_world = Inr cached_world
   \<and> map_of (fs restart_world) ''/tmp/proxy/'' = Some Dir
   \<and> cache cached_world ''abc123'' = Some AVAILABLE \<and> cache cached_world ''other'' = None
   \<and> isl (os_Mkdir ''/tmp/proxy/'' sealed_world) \<and> isl (cacheInit sealed_world)
   \<and> faulty unlisted_world SysReadDir ''/tmp/proxy/'' \<and> isl (cacheInit unlisted_world)"
proof -
  have d1: "''/tmp/proxy/'' = (if HasSuffix (cachedir cold_world) ''/'' then cachedir cold_world
                               else cachedir cold_world @ ''/'')"
    and d2: "''/tmp/proxy/'' = (if HasSuffix (cachedir restart_world) ''/'' then cachedir restart_world
                               else cachedir restart_world @ ''/'')"
    and d3: "''/tmp/proxy/'' = (if HasSuffix (cachedir sealed_world) ''/'' then cachedir sealed_world
                               else cachedir sealed_world @ ''/'')"
    and d4: "''/tmp/proxy/'' = (if HasSuffix (cachedir unlisted_world) ''/'' then cachedir unlisted_world
                               else cachedir unlisted_world @ ''/'')"
    by (simp_all add: HasSuffix_def cold_world_def sealed_world_def restart_world_def
          unlisted_world_def cached_world_def fresh_world_def)
  have a: "map_of (fs cold_world) ''/tmp/proxy/'' \<noteq> Some Dir" "fs_wf (fs cold_world)"
    "map_of (fs cold_world) ''/tmp/proxy/'' = None"
    by (simp_all add: cold_world_def fs_wf_def parent_def unslash_def dirname_def)
  have p: "map_of (fs restart_world) ''/tmp/proxy/'' = Some Dir"
    "map_of (fs restart_world) ''/tmp/proxy/abc123'' = Some (File [1, 2, 3])"
    "map_of (fs restart_world) ''/tmp/proxy/other'' = None"
    "map_of (fs restart_world) ''/tmp/proxy/other/'' = None"
    by (simp_all add: restart_world_def cached_world_def)
  have s: "map_of (fs sealed_world) ''/tmp/proxy/'' \<noteq> Some Dir"
    "isl (os_Mkdir ''/tmp/proxy/'' sealed_world)"
    by (simp_all add: sealed_world_def cold_world_def os_Mkdir_def)
  have u: "faulty unlisted_world SysReadDir ''/tmp/proxy/''"
    by (simp add: unlisted_world_def)
  from cacheInit_scan [OF d1] cacheInit_cold_world a
  have c1: "map_of (fs fresh_world) ''/tmp/proxy/'' = Some Dir \<and> cache fresh_world = Map.empty"
    by blast
  from cacheInit_scan [OF d2] cacheInit_restart_world p(1)
  have "cache cached_world =
          (\<lambda>n. if n \<noteq> [] \<and> CHR ''/'' \<notin> set n
                  \<and> (map_of (fs restart_world) (''/tmp/proxy/'' @ n) \<noteq> None
                       \<or> map_of (fs restart_world) (''/tmp/proxy/'' @ n @ ''/'') \<noteq> None)
               then Some AVAILABLE else None)"
    by blast
  then have c2: "cache cached_world ''abc123'' = Some AVAILABLE" "cache cached_world ''other'' = None"
    using p by simp_all
  from cacheInit_scan [OF d3] s have c3: "isl (cacheInit sealed_world)"
    by blast
  from cacheInit_scan [OF d4] u have c4: "isl (cacheInit unlisted_world)"
    by blast
  from c1 c2 c3 c4 a p s u cacheInit_cold_world cacheInit_restart_world show ?thesis by simp
qed

end
